theory Spec2Isabelle
  imports Complex_Main
begin

section \<open>NumPy arrays as used by the data-management notebook\<close>

text \<open>
  An \<open>ndarray\<close> is its shape together with its elements in row-major (C) order, the
  order in which \<open>flatten\<close>, \<open>ravel\<close> and \<open>reshape\<close> enumerate them by default,
  whatever the memory layout: they keep the element order and change the shape only.
  A voxel of a volume is identified by its row-major index in the spatial grid; the
  measurements of voxel \<open>v\<close> in an array whose last axis has length \<open>n\<close> are the
  elements \<open>v * n ..< v * n + n\<close> of the buffer.
\<close>

record 'a ndarray =
  shape :: "nat list"
  buf :: "'a list"

datatype error = ValueError | IndexError | MaskError | Shape_mismatch

definition wf_array :: "'a ndarray \<Rightarrow> bool" where
  "wf_array a = (length (buf a) = prod_list (shape a))"

definition row :: "nat \<Rightarrow> 'a list \<Rightarrow> nat \<Rightarrow> 'a list" where
  "row n xs v = take n (drop (v * n) xs)"

text \<open>\<open>a.reshape(-1, a.shape[-1])\<close>: the two-dimensional view, as the list of its rows.
  \<open>shape[-1]\<close> of a zero-dimensional array raises IndexError; a last axis of length 0
  leaves the \<open>-1\<close> undetermined and raises ValueError.\<close>

definition reshape_rows :: "'a ndarray \<Rightarrow> error + 'a list list" where
  "reshape_rows a =
     (if shape a = [] then Inl IndexError
      else (let n = last (shape a)
            in if n = 0 then Inl ValueError
               else Inr (map (row n (buf a)) [0..<length (buf a) div n])))"

text \<open>\<open>m.flatten()\<close>: the one-dimensional copy in row-major order.\<close>

definition flatten :: "'a ndarray \<Rightarrow> 'a list" where
  "flatten m = buf m"

text \<open>\<open>~m\<close> on a boolean array.\<close>

definition invert :: "bool ndarray \<Rightarrow> bool ndarray" where
  "invert m = m\<lparr>buf := map Not (buf m)\<rparr>"

text \<open>\<open>rows[mask, :]\<close> with a one-dimensional boolean mask: the rows whose mask entry is
  True, in order. A mask whose length differs from the number of rows raises IndexError.\<close>

definition bool_index :: "'a list \<Rightarrow> bool list \<Rightarrow> error + 'a list" where
  "bool_index rows msk =
     (if length msk \<noteq> length rows then Inl IndexError
      else Inr (map fst (filter snd (zip rows msk))))"

text \<open>\<open>numpy.ma.MaskedArray(data, mask=m)\<close>. A mask of another shape is resized when it
  has one element, reshaped when it has as many elements as the data, and refused with
  MaskError otherwise.\<close>

record 'a masked_array =
  ma_data :: "'a ndarray"
  ma_mask :: "bool ndarray"

definition MaskedArray :: "'a ndarray \<Rightarrow> bool ndarray \<Rightarrow> error + 'a masked_array" where
  "MaskedArray d m =
     (if shape m = shape d then Inr \<lparr>ma_data = d, ma_mask = m\<rparr>
      else if length (buf m) = 1
        then Inr \<lparr>ma_data = d,
                  ma_mask = \<lparr>shape = shape d, buf = replicate (length (buf d)) (hd (buf m))\<rparr>\<rparr>
      else if length (buf m) = length (buf d)
        then Inr \<lparr>ma_data = d, ma_mask = \<lparr>shape = shape d, buf = buf m\<rparr>\<rparr>
      else Inl MaskError)"

text \<open>\<open>.compressed()\<close>: the data that is not masked out, as a one-dimensional array in
  row-major order.\<close>

definition compressed :: "'a masked_array \<Rightarrow> 'a list" where
  "compressed a =
     map fst (filter (\<lambda>(x, masked). \<not> masked) (zip (buf (ma_data a)) (buf (ma_mask a))))"

subsection \<open>The bookkeeping cell (Mask 1, Mask 2)\<close>

text \<open>
  \<^verbatim>\<open>
  dwi_mask = np.repeat(combined_mask[..., np.newaxis], data_normalised.shape[-1], axis=-1)
  data = data_normalised
  flatten_dwi = data.reshape(-1, data.shape[-1])
  flattened_mask = combined_mask.flatten()
  masked_cresyl = MaskedArray(saf_cresyl_img, mask=~combined_mask)
  masked_gallyas = MaskedArray(saf_gallyas_img, mask=~combined_mask)
  flattened_masked_dwi = flatten_dwi[flattened_mask,:]
  flattened_masked_cresyl = masked_cresyl.compressed()
  flattened_masked_gallyas = masked_gallyas.compressed()
  \<close>
  The statements run in this order, so the first one that raises decides the error.
  \<open>dwi_mask\<close> is never read again; its only effect is the IndexError of \<open>shape[-1]\<close>
  on a zero-dimensional array, which \<open>reshape_rows\<close> reports for the same input.
\<close>

definition bookkeeping ::
  "'a ndarray \<Rightarrow> bool ndarray \<Rightarrow> 'b ndarray \<Rightarrow> 'b ndarray
     \<Rightarrow> error + ('a list list \<times> 'b list \<times> 'b list)" where
  "bookkeeping data_normalised combined_mask saf_cresyl_img saf_gallyas_img =
     (case reshape_rows data_normalised of
        Inl e \<Rightarrow> Inl e
      | Inr flatten_dwi \<Rightarrow>
          (let flattened_mask = flatten combined_mask in
           case MaskedArray saf_cresyl_img (invert combined_mask) of
             Inl e \<Rightarrow> Inl e
           | Inr masked_cresyl \<Rightarrow>
               (case MaskedArray saf_gallyas_img (invert combined_mask) of
                  Inl e \<Rightarrow> Inl e
                | Inr masked_gallyas \<Rightarrow>
                    (case bool_index flatten_dwi flattened_mask of
                       Inl e \<Rightarrow> Inl e
                     | Inr flattened_masked_dwi \<Rightarrow>
                         Inr (flattened_masked_dwi,
                              compressed masked_cresyl,
                              compressed masked_gallyas)))))"

text \<open>The voxels a mask selects: the row-major indices of its True entries, ascending.\<close>

definition true_voxels :: "bool ndarray \<Rightarrow> nat list" where
  "true_voxels m = filter (\<lambda>v. buf m ! v) [0..<length (buf m)]"


section \<open>Normalisation by the baseline signal\<close>

text \<open>
  \<open>get_fdata()\<close> yields double-precision arrays. A double is a finite number, a negative
  zero, an infinity or a NaN; \<open>Fin 0\<close> is the positive zero. Rounding is a parameter
  \<open>rnd\<close> of the division: it maps the exact quotient of two finite nonzero numbers to
  the double that is stored, which may be an infinity (overflow) or a zero (underflow).
\<close>

datatype f64 = Fin real | NegZero | PosInf | NegInf | NaN

fun is_finite :: "f64 \<Rightarrow> bool" where
  "is_finite (Fin x) = True"
| "is_finite NegZero = True"
| "is_finite _ = False"

fun is_zero :: "f64 \<Rightarrow> bool" where
  "is_zero (Fin x) = (x = 0)"
| "is_zero NegZero = True"
| "is_zero _ = False"

fun is_inf :: "f64 \<Rightarrow> bool" where
  "is_inf PosInf = True"
| "is_inf NegInf = True"
| "is_inf _ = False"

fun sign_bit :: "f64 \<Rightarrow> bool" where
  "sign_bit (Fin x) = (x < 0)"
| "sign_bit NegZero = True"
| "sign_bit NegInf = True"
| "sign_bit _ = False"

fun val :: "f64 \<Rightarrow> real" where
  "val (Fin x) = x"
| "val _ = 0"

definition signed_inf :: "bool \<Rightarrow> f64" where
  "signed_inf neg = (if neg then NegInf else PosInf)"

definition signed_zero :: "bool \<Rightarrow> f64" where
  "signed_zero neg = (if neg then NegZero else Fin 0)"

text \<open>IEEE 754 division as NumPy performs it on arrays: no exception is raised, a
  division by zero yields an infinity, and \<open>0/0\<close> and \<open>inf/inf\<close> yield NaN.\<close>

definition fdiv :: "(real \<Rightarrow> f64) \<Rightarrow> f64 \<Rightarrow> f64 \<Rightarrow> f64" where
  "fdiv rnd x y =
     (if x = NaN \<or> y = NaN then NaN
      else if is_inf x then (if is_inf y then NaN else signed_inf (sign_bit x \<noteq> sign_bit y))
      else if is_inf y then signed_zero (sign_bit x \<noteq> sign_bit y)
      else if is_zero y then (if is_zero x then NaN else signed_inf (sign_bit x \<noteq> sign_bit y))
      else if is_zero x then signed_zero (sign_bit x \<noteq> sign_bit y)
      else rnd (val x / val y))"

text \<open>\<open>np.repeat(s[..., np.newaxis], n, axis=-1)\<close>: a new last axis of length \<open>n\<close> on
  which every element is repeated.\<close>

definition repeat_last :: "'a ndarray \<Rightarrow> nat \<Rightarrow> 'a ndarray" where
  "repeat_last s n = \<lparr>shape = shape s @ [n], buf = concat (map (replicate n) (buf s))\<rparr>"

text \<open>\<open>a / b\<close> on arrays of one shape is the elementwise quotient. For operands of
  different shapes NumPy broadcasts unit axes or raises ValueError; that case is not
  followed further here and is reported as \<open>Shape_mismatch\<close>.\<close>

definition divide :: "(real \<Rightarrow> f64) \<Rightarrow> f64 ndarray \<Rightarrow> f64 ndarray \<Rightarrow> error + f64 ndarray" where
  "divide rnd a b =
     (if shape a = shape b
      then Inr \<lparr>shape = shape a, buf = map2 (fdiv rnd) (buf a) (buf b)\<rparr>
      else Inl Shape_mismatch)"

text \<open>\<open>np.concatenate((a, b), axis=-1)\<close>: zero-dimensional arrays cannot be
  concatenated, and all axes but the last must agree.\<close>

definition concatenate_last :: "'a ndarray \<Rightarrow> 'a ndarray \<Rightarrow> error + 'a ndarray" where
  "concatenate_last a b =
     (if shape a = [] \<or> shape b = [] then Inl ValueError
      else if butlast (shape a) \<noteq> butlast (shape b) then Inl ValueError
      else Inr \<lparr>shape = butlast (shape a) @ [last (shape a) + last (shape b)],
                buf = concat (map (\<lambda>v. row (last (shape a)) (buf a) v
                                       @ row (last (shape b)) (buf b) v)
                                  [0..<prod_list (butlast (shape a))])\<rparr>)"

text \<open>
  \<^verbatim>\<open>
  S010k = np.repeat(S010k_img[..., np.newaxis], data10k_img.shape[-1], axis=-1)
  S07k = np.repeat(S07k_img[..., np.newaxis], data7k_img.shape[-1], axis=-1)
  data10k_img_normalised = data10k_img/S010k
  data07k_img_normalised = data7k_img/S07k
  data_normalised = np.concatenate((data07k_img_normalised, data10k_img_normalised), axis=-1)
  \<close>
\<close>

definition data_normalised ::
  "(real \<Rightarrow> f64) \<Rightarrow> f64 ndarray \<Rightarrow> f64 ndarray \<Rightarrow> f64 ndarray \<Rightarrow> f64 ndarray
     \<Rightarrow> error + f64 ndarray" where
  "data_normalised rnd data7k_img S07k_img data10k_img S010k_img =
     (if shape data10k_img = [] then Inl IndexError
      else let S010k = repeat_last S010k_img (last (shape data10k_img)) in
      if shape data7k_img = [] then Inl IndexError
      else let S07k = repeat_last S07k_img (last (shape data7k_img)) in
      case divide rnd data10k_img S010k of
        Inl e \<Rightarrow> Inl e
      | Inr data10k_img_normalised \<Rightarrow>
          (case divide rnd data7k_img S07k of
             Inl e \<Rightarrow> Inl e
           | Inr data07k_img_normalised \<Rightarrow>
               concatenate_last data07k_img_normalised data10k_img_normalised))"

section \<open>Creating output folders\<close>

text \<open>
  The file system is a tree of nodes; a node is a regular file or a directory and is
  addressed by its location, the list of names from the root. A path is the string the
  program passes, resolved as POSIX resolves it: from the root when it starts with a
  slash and from the working directory otherwise, component by component, where an
  empty component and \<open>.\<close> stay in place, \<open>..\<close> steps to the parent (the root is its
  own parent), and every component but the last must lead through a directory. Names
  are case-sensitive and a path is a string of bytes. Symbolic links, permissions,
  concurrent processes and the limits of the file system (length of a name or a path,
  space) are outside the model. An operation returns its outcome together with the file
  system it leaves behind, also when it raises.
\<close>

type_synonym location = "string list"








definition start :: "location \<Rightarrow> string \<Rightarrow> location" where
  "start cwd p = (if p \<noteq> [] \<and> hd p = CHR ''/'' then [] else cwd)"















section \<open>Bayesian change inference\<close>

text \<open>
  The notebook imports the package \<open>bench\<close> (\<open>change_model\<close>, \<open>diffusion_models\<close>, ...)
  and the README describes its command line; the modules themselves are not part of
  the notebook. The inference step of \<open>bench.change_model\<close> is modelled from the
  specification (sections 3, 4.4 and 6). The regressions and the priors are opaque
  there, so the log-evidence of a trained change model for an observation and its
  change-amount estimate are parameters of the model.
\<close>

text \<open>Modelled from the spec: the input of bench's inference for one voxel. An
  Observation is a baseline summary vector, a delta
  summary vector and a noise covariance matrix; the covariance is an array of doubles
  and may hold NaN.\<close>

record observation =
  baseline :: "real list"
  delta :: "real list"
  noise_cov :: "f64 list list"

text \<open>Modelled from the spec: the pickle file written by \<open>bench diff-train\<close>. The
  Trained Change Model artifact bundles the forward
  model identifier, the protocol fingerprint (the b-values) and one trained change
  model with its parameter name per candidate.\<close>

record 'm artifact =
  forward_model :: string
  fingerprint :: "real list"
  candidates :: "(string \<times> 'm) list"

text \<open>Modelled from the spec: the output of bench's inference for one voxel. An
  Inference Result holds a posterior probability and a
  change-amount estimate per candidate parameter.\<close>

record inference_result =
  posterior :: "real list"
  amount :: "real list"

text \<open>Modelled from the spec: a \<open>\<Sigma>\<close> of bench's inference input that contains a NaN.\<close>

definition contains_nan :: "f64 list list \<Rightarrow> bool" where
  "contains_nan S = (\<exists>r \<in> set S. NaN \<in> set r)"

text \<open>Modelled from the spec: positive-definiteness of \<open>\<Sigma>\<close> in bench's inference,
  decided the way a Cholesky factorisation decides it: symmetric elimination meets a
  positive pivot at every step.\<close>

function pos_pivots :: "real list list \<Rightarrow> bool" where
  "pos_pivots [] = True"
| "pos_pivots (r # rs) =
     (case r of
        [] \<Rightarrow> False
      | p # ps \<Rightarrow> 0 < p \<and>
          pos_pivots (map (\<lambda>q. case q of [] \<Rightarrow> []
                                 | a # as \<Rightarrow> map2 (\<lambda>x y. x - a / p * y) as ps) rs))"
  by pat_completeness auto
termination
  by (relation "measure length") auto

text \<open>Modelled from the spec: the covariance of bench's inference input is a square,
  symmetric matrix of the summary dimension.\<close>

definition symmetric :: "real list list \<Rightarrow> bool" where
  "symmetric S = ((\<forall>r \<in> set S. length r = length S)
                \<and> (\<forall>i \<in> set [0..<length S]. \<forall>j \<in> set [0..<length S]. S ! i ! j = S ! j ! i))"

text \<open>Modelled from the spec: a positive-definite \<open>\<Sigma>\<close> of bench's inference input has
  finite entries, is symmetric and passes the elimination.\<close>

definition positive_definite :: "f64 list list \<Rightarrow> bool" where
  "positive_definite S =
     ((\<forall>r \<in> set S. \<forall>x \<in> set r. is_finite x)
      \<and> symmetric (map (map val) S) \<and> pos_pivots (map (map val) S))"

text \<open>Modelled from the spec: the covariance bench's inference accepts; a voxel with
  any other \<open>\<Sigma>\<close> is invalid.\<close>

definition valid_covariance :: "f64 list list \<Rightarrow> bool" where
  "valid_covariance S = (\<not> contains_nan S \<and> positive_definite S)"

text \<open>Modelled from the spec: the final normalization step of bench's inference, the
  normalized posterior \<open>p_k = e_k / \<Sigma>_j e_j\<close>.\<close>

definition normalise :: "real list \<Rightarrow> real list" where
  "normalise es = map (\<lambda>e. e / sum_list es) es"

text \<open>Modelled from the spec: the unnormalized evidences bench's inference computes for
  one voxel. Evidences are
  computed in log-space until the final normalization step, so \<open>e_k\<close> is the exponential
  of the log-evidence of candidate \<open>k\<close>.\<close>

definition evidences :: "('m \<Rightarrow> observation \<Rightarrow> real) \<Rightarrow> 'm artifact \<Rightarrow> observation \<Rightarrow> real list" where
  "evidences log_evidence art ob = map (\<lambda>(name, m). exp (log_evidence m ob)) (candidates art)"

text \<open>Modelled from the spec: bench's inference for one voxel is a pure function of its
  Observation and the artifact. A voxel whose \<open>\<Sigma>\<close> holds a NaN or is not
  positive-definite fails alone and is reported as invalid (\<open>None\<close>).\<close>

definition infer_voxel ::
  "('m \<Rightarrow> observation \<Rightarrow> real) \<Rightarrow> ('m \<Rightarrow> observation \<Rightarrow> real) \<Rightarrow> 'm artifact \<Rightarrow> observation
     \<Rightarrow> inference_result option" where
  "infer_voxel log_evidence map_amount art ob =
     (if valid_covariance (noise_cov ob)
      then Some \<lparr>posterior = normalise (evidences log_evidence art ob),
                 amount = map (\<lambda>(name, m). map_amount m ob) (candidates art)\<rparr>
      else None)"

text \<open>Modelled from the spec: the observation of the scenario of section 8, \<open>S\<^sub>0 = 4\<close>,
  \<open>\<Delta> = 0.4\<close>, \<open>\<Sigma> = [[0.01]]\<close>, as input of bench's inference.\<close>

definition radius_observation :: observation where
  "radius_observation = \<lparr>baseline = [4], delta = [2/5], noise_cov = [[Fin (1/100)]]\<rparr>"

text \<open>Modelled from the spec: an artifact with two candidate parameters at the
  notebook's b-values, each trained model (not in the notebook) standing for its
  evidence.\<close>

definition two_candidates :: "real artifact" where
  "two_candidates =
     \<lparr>forward_model = ''stick'', fingerprint = [7000, 10000],
      candidates = [(''s_iso'', 1), (''d_a'', 3)]\<rparr>"

section \<open>Properties of the mask extraction\<close>

lemma select_by_index:
  "length xs = length ms \<Longrightarrow>
   map fst (filter snd (zip xs ms)) = map ((!) xs) (filter (\<lambda>v. ms ! v) [0..<length ms])"
proof (induction ms arbitrary: xs rule: rev_induct)
  case Nil
  then show ?case by simp
next
  case (snoc m ms)
  then obtain ys y where xs: "xs = ys @ [y]" and l: "length ys = length ms"
    by (metis length_Suc_conv_rev length_append_singleton)
  have a: "filter (\<lambda>v. (ms @ [m]) ! v) [0..<length ms] = filter (\<lambda>v. ms ! v) [0..<length ms]"
    by (rule filter_cong) (auto simp: nth_append)
  have b: "map ((!) (ys @ [y])) (filter (\<lambda>v. ms ! v) [0..<length ms])
           = map ((!) ys) (filter (\<lambda>v. ms ! v) [0..<length ms])"
    by (rule map_cong) (auto simp: nth_append l)
  have c: "(ys @ [y]) ! length ms = y"
    using l by (simp add: nth_append)
  show ?case
    using snoc.IH[OF l] l by (simp add: xs a b c)
qed

lemma compressed_by_index:
  assumes "length xs = length ms"
  shows "map fst (filter (\<lambda>(x, masked). \<not> masked) (zip xs (map Not ms)))
         = map ((!) xs) (filter (\<lambda>v. ms ! v) [0..<length ms])"
proof -
  have "filter (\<lambda>(x, masked). \<not> masked) (zip xs (map Not ms))
        = map (\<lambda>(x, b). (x, \<not> b)) (filter snd (zip xs ms))"
    using assms by (induction xs ms rule: list_induct2) auto
  then have "map fst (filter (\<lambda>(x, masked). \<not> masked) (zip xs (map Not ms)))
        = map fst (filter snd (zip xs ms))"
    by (simp add: case_prod_unfold comp_def)
  then show ?thesis
    using select_by_index[OF assms] by simp
qed

lemma length_true_voxels: "length (true_voxels m) = length (filter id (buf m))"
proof -
  have "map fst (filter snd (zip (buf m) (buf m))) = map ((!) (buf m)) (true_voxels m)"
    unfolding true_voxels_def by (rule select_by_index) simp
  then have "length (filter snd (zip (buf m) (buf m))) = length (true_voxels m)"
    by (metis length_map)
  moreover have "length (filter snd (zip xs xs)) = length (filter id xs)" for xs :: "bool list"
    by (induction xs) auto
  ultimately show ?thesis by simp
qed

lemma true_voxels_bound: "v \<in> set (true_voxels m) \<Longrightarrow> v < length (buf m) \<and> buf m ! v"
  by (auto simp: true_voxels_def)

lemma reshape_rows_ok:
  assumes "wf_array a" "shape a = sp @ [n]" "0 < n"
  shows "reshape_rows a = Inr (map (row n (buf a)) [0..<prod_list sp])"
proof -
  have "length (buf a) = prod_list sp * n"
    using assms by (simp add: wf_array_def)
  then have "length (buf a) div n = prod_list sp"
    using assms(3) by simp
  then show ?thesis
    using assms by (simp add: reshape_rows_def Let_def)
qed

text \<open>
  C10. On one voxel grid (the mask, the two SAF images and the spatial axes of the DWI
  data have one shape), for every mask the cell returns, and the extracted DWI matrix,
  the compressed cresyl array and the compressed gallyas array all have as many
  entries as the mask has True voxels; entry \<open>i\<close> of each belongs to the \<open>i\<close>-th True
  voxel of the mask in row-major order: the DWI row is that voxel's measurement vector
  and the SAF entries are that voxel's values.
\<close>

theorem masked_extraction_aligned:
  assumes wf: "wf_array data" "wf_array msk" "wf_array cresyl" "wf_array gallyas"
    and sh: "shape data = shape msk @ [n]" "0 < n"
            "shape cresyl = shape msk" "shape gallyas = shape msk"
  shows "\<exists>dwi cr ga.
           bookkeeping data msk cresyl gallyas = Inr (dwi, cr, ga)
         \<and> length dwi = length (filter id (buf msk))
         \<and> length cr = length (filter id (buf msk))
         \<and> length ga = length (filter id (buf msk))
         \<and> (\<forall>i < length (filter id (buf msk)).
               dwi ! i = row n (buf data) (true_voxels msk ! i)
             \<and> cr ! i = buf cresyl ! (true_voxels msk ! i)
             \<and> ga ! i = buf gallyas ! (true_voxels msk ! i))"
proof -
  let ?N = "prod_list (shape msk)"
  let ?rows = "map (row n (buf data)) [0..<?N]"
  let ?tv = "true_voxels msk"
  have lm: "length (buf msk) = ?N"
    using wf(2) by (simp add: wf_array_def)
  have lc: "length (buf cresyl) = ?N"
    using wf(3) sh(3) by (simp add: wf_array_def)
  have lg: "length (buf gallyas) = ?N"
    using wf(4) sh(4) by (simp add: wf_array_def)
  have rs: "reshape_rows data = Inr ?rows"
    by (rule reshape_rows_ok[OF wf(1) sh(1) sh(2)])
  have mc: "MaskedArray cresyl (invert msk) = Inr \<lparr>ma_data = cresyl, ma_mask = invert msk\<rparr>"
    using sh(3) by (simp add: MaskedArray_def invert_def)
  have mg: "MaskedArray gallyas (invert msk) = Inr \<lparr>ma_data = gallyas, ma_mask = invert msk\<rparr>"
    using sh(4) by (simp add: MaskedArray_def invert_def)
  have dwi: "bool_index ?rows (flatten msk) = Inr (map ((!) ?rows) ?tv)"
    using select_by_index[of ?rows "buf msk"] lm
    by (simp add: bool_index_def flatten_def true_voxels_def)
  have cr: "compressed \<lparr>ma_data = cresyl, ma_mask = invert msk\<rparr> = map ((!) (buf cresyl)) ?tv"
    using compressed_by_index[of "buf cresyl" "buf msk"] lm lc
    by (simp add: compressed_def invert_def true_voxels_def)
  have ga: "compressed \<lparr>ma_data = gallyas, ma_mask = invert msk\<rparr> = map ((!) (buf gallyas)) ?tv"
    using compressed_by_index[of "buf gallyas" "buf msk"] lm lg
    by (simp add: compressed_def invert_def true_voxels_def)
  have run: "bookkeeping data msk cresyl gallyas
             = Inr (map ((!) ?rows) ?tv, map ((!) (buf cresyl)) ?tv, map ((!) (buf gallyas)) ?tv)"
    by (simp add: bookkeeping_def rs mc mg dwi cr ga)
  have len: "length ?tv = length (filter id (buf msk))"
    by (rule length_true_voxels)
  have rowv: "?rows ! (?tv ! i) = row n (buf data) (?tv ! i)" if "i < length ?tv" for i
  proof -
    have "?tv ! i < ?N"
      using true_voxels_bound[of "?tv ! i" msk] that lm by simp
    then show ?thesis by simp
  qed
  show ?thesis
    using run len rowv by simp
qed

theorem masked_extraction_aligned_witness:
  "\<exists>dwi cr ga.
     bookkeeping \<lparr>shape = [2, 2, 2], buf = [1, 2, 3, 4, 5, 6, 7, 8 :: nat]\<rparr>
                 \<lparr>shape = [2, 2], buf = [True, False, False, True]\<rparr>
                 \<lparr>shape = [2, 2], buf = [10, 20, 30, 40 :: nat]\<rparr>
                 \<lparr>shape = [2, 2], buf = [11, 21, 31, 41 :: nat]\<rparr> = Inr (dwi, cr, ga)
   \<and> length dwi = 2 \<and> length cr = 2 \<and> length ga = 2
   \<and> dwi ! 1 = [7, 8] \<and> cr ! 1 = 40 \<and> ga ! 1 = 41"
proof -
  let ?D = "\<lparr>shape = [2, 2, 2], buf = [1, 2, 3, 4, 5, 6, 7, 8 :: nat]\<rparr>"
  let ?M = "\<lparr>shape = [2, 2], buf = [True, False, False, True]\<rparr>"
  let ?C = "\<lparr>shape = [2, 2], buf = [10, 20, 30, 40 :: nat]\<rparr>"
  let ?G = "\<lparr>shape = [2, 2], buf = [11, 21, 31, 41 :: nat]\<rparr>"
  have tv: "true_voxels ?M = [0, 3]"
    by (simp add: true_voxels_def upt_rec)
  have cnt: "length (filter id (buf ?M)) = 2"
    by simp
  from masked_extraction_aligned[of ?D ?M ?C ?G 2]
  obtain dwi cr ga where r: "bookkeeping ?D ?M ?C ?G = Inr (dwi, cr, ga)"
      "length dwi = 2" "length cr = 2" "length ga = 2"
      "\<forall>i < 2. dwi ! i = row 2 (buf ?D) (true_voxels ?M ! i)
             \<and> cr ! i = buf ?C ! (true_voxels ?M ! i)
             \<and> ga ! i = buf ?G ! (true_voxels ?M ! i)"
    unfolding cnt by (auto simp: wf_array_def)
  from r(5)[rule_format, of 1] have "dwi ! 1 = [7, 8] \<and> cr ! 1 = 40 \<and> ga ! 1 = 41"
    by (simp add: tv row_def)
  with r(1-4) show ?thesis by blast
qed

section \<open>Properties of the normalisation\<close>

lemma row_concat:
  "\<forall>c \<in> set cs. length c = n \<Longrightarrow> v < length cs \<Longrightarrow> row n (concat cs) v = cs ! v"
proof (induction cs arbitrary: v)
  case Nil
  then show ?case by simp
next
  case (Cons c cs)
  show ?case
  proof (cases v)
    case 0
    with Cons.prems show ?thesis by (simp add: row_def)
  next
    case (Suc w)
    have "row n (concat (c # cs)) (Suc w) = row n (concat cs) w"
      using Cons.prems by (simp add: row_def)
    with Suc Cons show ?thesis by simp
  qed
qed

lemma length_concat_chunks:
  "\<forall>c \<in> set cs. length c = n \<Longrightarrow> length (concat cs) = length cs * n"
  by (induction cs) auto

lemma row_map2: "row n (map2 f xs ys) v = map2 f (row n xs v) (row n ys v)"
  by (simp add: row_def take_map drop_map take_zip drop_zip)

lemma length_row: "Suc v * n \<le> length xs \<Longrightarrow> length (row n xs v) = n"
  by (simp add: row_def)

lemma map2_replicate: "length xs = n \<Longrightarrow> map2 f xs (replicate n s) = map (\<lambda>x. f x s) xs"
  by (induction xs arbitrary: n) auto

lemma Suc_mult_le: "v < N \<Longrightarrow> Suc v * n \<le> N * n"
  by (metis Suc_leI mult_le_mono1)

text \<open>A quotient is finite only if its divisor is not a zero, whatever the dividend and
  the rounding.\<close>

lemma fdiv_finite_divisor: "is_finite (fdiv rnd x s) \<Longrightarrow> \<not> is_zero s"
  by (cases s; cases x) (auto simp: fdiv_def signed_inf_def split: if_splits)

lemma divide_repeat_row:
  assumes wf: "wf_array d" "wf_array s" and sh: "shape d = sp @ [n]" "shape s = sp"
  shows "\<exists>q. divide rnd d (repeat_last s (last (shape d))) = Inr q
           \<and> shape q = sp @ [n] \<and> length (buf q) = prod_list sp * n
           \<and> (\<forall>v < prod_list sp.
                 row n (buf q) v = map (\<lambda>x. fdiv rnd x (buf s ! v)) (row n (buf d) v))"
proof -
  let ?rep = "concat (map (replicate n) (buf s))"
  let ?q = "\<lparr>shape = sp @ [n], buf = map2 (fdiv rnd) (buf d) ?rep\<rparr>"
  have ld: "length (buf d) = prod_list sp * n"
    using wf(1) sh(1) by (simp add: wf_array_def)
  have ls: "length (buf s) = prod_list sp"
    using wf(2) sh(2) by (simp add: wf_array_def)
  have lr: "length ?rep = prod_list sp * n"
    using length_concat_chunks[of "map (replicate n) (buf s)" n] ls by simp
  have run: "divide rnd d (repeat_last s (last (shape d))) = Inr ?q"
    using sh by (simp add: divide_def repeat_last_def)
  have rows: "row n (buf ?q) v = map (\<lambda>x. fdiv rnd x (buf s ! v)) (row n (buf d) v)"
    if v: "v < prod_list sp" for v
  proof -
    have "row n ?rep v = map (replicate n) (buf s) ! v"
      by (rule row_concat) (use v ls in auto)
    then have r: "row n ?rep v = replicate n (buf s ! v)"
      using v ls by simp
    have l: "length (row n (buf d) v) = n"
      using length_row[of v n "buf d"] Suc_mult_le[OF v] ld by simp
    show ?thesis
      using map2_replicate[OF l] by (simp add: row_map2 r)
  qed
  show ?thesis
    using run rows ld lr by (intro exI[of _ ?q]) simp
qed

lemma concatenate_rows:
  assumes sa: "shape a = sp @ [na]" and sb: "shape b = sp @ [nb]"
    and la: "length (buf a) = prod_list sp * na" and lb: "length (buf b) = prod_list sp * nb"
  shows "\<exists>r. concatenate_last a b = Inr r \<and> shape r = sp @ [na + nb] \<and> wf_array r
           \<and> (\<forall>v < prod_list sp. row (na + nb) (buf r) v = row na (buf a) v @ row nb (buf b) v)"
proof -
  let ?f = "\<lambda>v. row na (buf a) v @ row nb (buf b) v"
  let ?cs = "map ?f [0..<prod_list sp]"
  let ?r = "\<lparr>shape = sp @ [na + nb], buf = concat ?cs\<rparr>"
  have run: "concatenate_last a b = Inr ?r"
    using sa sb by (simp add: concatenate_last_def)
  have len: "\<forall>c \<in> set ?cs. length c = na + nb"
  proof
    fix c
    assume "c \<in> set ?cs"
    then obtain v where v: "v < prod_list sp" and c: "c = ?f v"
      by auto
    have "length (row na (buf a) v) = na"
      using length_row[of v na "buf a"] Suc_mult_le[OF v] la by simp
    moreover have "length (row nb (buf b) v) = nb"
      using length_row[of v nb "buf b"] Suc_mult_le[OF v] lb by simp
    ultimately show "length c = na + nb"
      using c by simp
  qed
  have wf: "wf_array ?r"
    using length_concat_chunks[OF len] by (simp add: wf_array_def)
  have rows: "row (na + nb) (buf ?r) v = ?f v" if "v < prod_list sp" for v
    using row_concat[OF len, of v] that by simp
  show ?thesis
    using run wf rows by (intro exI[of _ ?r]) simp
qed

text \<open>
  C9. For images on one voxel grid, the normalisation returns, and for every voxel the
  normalized data vector is the b=7k measurements, each divided by that voxel's 7k S0
  value, followed along the measurement axis by the b=10k measurements, each divided
  by its 10k S0 value. Nothing guards the division: an entry of the 7k part can be
  finite only if the voxel's 7k S0 is not zero, and an entry of the 10k part only if
  its 10k S0 is not zero.
\<close>

theorem data_normalised_rows:
  assumes wf: "wf_array d7" "wf_array s7" "wf_array d10" "wf_array s10"
    and sh: "shape d7 = sp @ [n7]" "shape s7 = sp" "shape d10 = sp @ [n10]" "shape s10 = sp"
  shows "\<exists>r. data_normalised rnd d7 s7 d10 s10 = Inr r
           \<and> shape r = sp @ [n7 + n10]
           \<and> (\<forall>v < prod_list sp.
                 row (n7 + n10) (buf r) v
                   = map (\<lambda>x. fdiv rnd x (buf s7 ! v)) (row n7 (buf d7) v)
                     @ map (\<lambda>x. fdiv rnd x (buf s10 ! v)) (row n10 (buf d10) v)
               \<and> (\<forall>j < n7. is_finite (row (n7 + n10) (buf r) v ! j)
                      \<longrightarrow> \<not> is_zero (buf s7 ! v))
               \<and> (\<forall>j < n10. is_finite (row (n7 + n10) (buf r) v ! (n7 + j))
                      \<longrightarrow> \<not> is_zero (buf s10 ! v)))"
proof -
  obtain q7 where q7: "divide rnd d7 (repeat_last s7 (last (shape d7))) = Inr q7"
      "shape q7 = sp @ [n7]" "length (buf q7) = prod_list sp * n7"
      "\<forall>v < prod_list sp. row n7 (buf q7) v = map (\<lambda>x. fdiv rnd x (buf s7 ! v)) (row n7 (buf d7) v)"
    using divide_repeat_row[OF wf(1) wf(2) sh(1) sh(2), of rnd] by blast
  obtain q10 where q10: "divide rnd d10 (repeat_last s10 (last (shape d10))) = Inr q10"
      "shape q10 = sp @ [n10]" "length (buf q10) = prod_list sp * n10"
      "\<forall>v < prod_list sp. row n10 (buf q10) v = map (\<lambda>x. fdiv rnd x (buf s10 ! v)) (row n10 (buf d10) v)"
    using divide_repeat_row[OF wf(3) wf(4) sh(3) sh(4), of rnd] by blast
  obtain r where r: "concatenate_last q7 q10 = Inr r" "shape r = sp @ [n7 + n10]"
      "\<forall>v < prod_list sp. row (n7 + n10) (buf r) v = row n7 (buf q7) v @ row n10 (buf q10) v"
    using concatenate_rows[OF q7(2) q10(2) q7(3) q10(3)] by blast
  have run: "data_normalised rnd d7 s7 d10 s10 = Inr r"
    using sh(1) sh(3) q7(1) q10(1) r(1) by (simp add: data_normalised_def Let_def)
  have ld7: "length (buf d7) = prod_list sp * n7"
    using wf(1) sh(1) by (simp add: wf_array_def)
  have ld10: "length (buf d10) = prod_list sp * n10"
    using wf(3) sh(3) by (simp add: wf_array_def)
  have body: "row (n7 + n10) (buf r) v
                   = map (\<lambda>x. fdiv rnd x (buf s7 ! v)) (row n7 (buf d7) v)
                     @ map (\<lambda>x. fdiv rnd x (buf s10 ! v)) (row n10 (buf d10) v)
               \<and> (\<forall>j < n7. is_finite (row (n7 + n10) (buf r) v ! j)
                      \<longrightarrow> \<not> is_zero (buf s7 ! v))
               \<and> (\<forall>j < n10. is_finite (row (n7 + n10) (buf r) v ! (n7 + j))
                      \<longrightarrow> \<not> is_zero (buf s10 ! v))" if v: "v < prod_list sp" for v
  proof -
    have l7: "length (row n7 (buf d7) v) = n7"
      using length_row[of v n7 "buf d7"] Suc_mult_le[OF v] ld7 by simp
    have l10: "length (row n10 (buf d10) v) = n10"
      using length_row[of v n10 "buf d10"] Suc_mult_le[OF v] ld10 by simp
    have eq: "row (n7 + n10) (buf r) v
                   = map (\<lambda>x. fdiv rnd x (buf s7 ! v)) (row n7 (buf d7) v)
                     @ map (\<lambda>x. fdiv rnd x (buf s10 ! v)) (row n10 (buf d10) v)"
      using r(3) q7(4) q10(4) v by simp
    have f7: "\<not> is_zero (buf s7 ! v)"
      if "j < n7" "is_finite (row (n7 + n10) (buf r) v ! j)" for j
    proof -
      have "row (n7 + n10) (buf r) v ! j = fdiv rnd (row n7 (buf d7) v ! j) (buf s7 ! v)"
        using that(1) l7 by (simp add: eq nth_append)
      then show ?thesis
        using that(2) fdiv_finite_divisor by metis
    qed
    have f10: "\<not> is_zero (buf s10 ! v)"
      if "j < n10" "is_finite (row (n7 + n10) (buf r) v ! (n7 + j))" for j
    proof -
      have "row (n7 + n10) (buf r) v ! (n7 + j)
            = fdiv rnd (row n10 (buf d10) v ! j) (buf s10 ! v)"
        using that(1) l7 l10 by (simp add: eq nth_append)
      then show ?thesis
        using that(2) fdiv_finite_divisor by metis
    qed
    show ?thesis
      using eq f7 f10 by blast
  qed
  show ?thesis
    using run r(2) body by blast
qed

theorem data_normalised_rows_witness:
  "\<exists>r. data_normalised Fin
          \<lparr>shape = [2, 2], buf = [Fin 1, Fin 2, Fin 3, Fin 4]\<rparr>
          \<lparr>shape = [2], buf = [Fin 2, Fin 0]\<rparr>
          \<lparr>shape = [2, 1], buf = [Fin 1, Fin 0]\<rparr>
          \<lparr>shape = [2], buf = [Fin 4, NegZero]\<rparr> = Inr r
      \<and> shape r = [2, 3]
      \<and> row 3 (buf r) 0 = [Fin (1/2), Fin 1, Fin (1/4)]
      \<and> row 3 (buf r) 1 = [PosInf, PosInf, NaN]"
proof -
  let ?d7 = "\<lparr>shape = [2, 2], buf = [Fin 1, Fin 2, Fin 3, Fin 4]\<rparr>"
  let ?s7 = "\<lparr>shape = [2], buf = [Fin 2, Fin 0]\<rparr>"
  let ?d10 = "\<lparr>shape = [2, 1], buf = [Fin 1, Fin 0]\<rparr>"
  let ?s10 = "\<lparr>shape = [2], buf = [Fin 4, NegZero]\<rparr>"
  from data_normalised_rows[of ?d7 ?s7 ?d10 ?s10 "[2]" 2 1 Fin]
  obtain r where r: "data_normalised Fin ?d7 ?s7 ?d10 ?s10 = Inr r" "shape r = [2, 3]"
      "\<forall>v < 2. row 3 (buf r) v
                 = map (\<lambda>x. fdiv Fin x (buf ?s7 ! v)) (row 2 (buf ?d7) v)
                   @ map (\<lambda>x. fdiv Fin x (buf ?s10 ! v)) (row 1 (buf ?d10) v)"
    by (auto simp: wf_array_def)
  from r(3)[rule_format, of 0] have "row 3 (buf r) 0 = [Fin (1/2), Fin 1, Fin (1/4)]"
    by (simp add: row_def fdiv_def)
  moreover from r(3)[rule_format, of 1] have "row 3 (buf r) 1 = [PosInf, PosInf, NaN]"
    by (simp add: row_def fdiv_def signed_inf_def)
  ultimately show ?thesis
    using r(1,2) by blast
qed

section \<open>Properties of create_folder\<close>




















lemma start_prefix: "h \<noteq> [] \<Longrightarrow> hd h = hd p \<Longrightarrow> p \<noteq> [] \<Longrightarrow> start cwd h = start cwd p"
  by (simp add: start_def)



















section \<open>Properties of the posterior\<close>

lemma sum_list_normalise: "sum_list es \<noteq> 0 \<Longrightarrow> sum_list (normalise es) = 1"
proof -
  assume nz: "sum_list es \<noteq> 0"
  have "sum_list (map (\<lambda>e. e * inverse (sum_list es)) es) = sum_list es * inverse (sum_list es)"
    using sum_list_mult_const[of "\<lambda>e. e" "inverse (sum_list es)" es] by simp
  then show ?thesis
    using nz by (simp add: normalise_def divide_inverse)
qed

lemma sum_list_pos_nonempty:
  "xs \<noteq> [] \<Longrightarrow> \<forall>x \<in> set xs. 0 < x \<Longrightarrow> 0 < sum_list (xs :: real list)"
  by (induction xs) (auto intro: add_pos_nonneg sum_list_nonneg less_imp_le)

lemma evidences_positive: "\<forall>e \<in> set (evidences lev art ob). 0 < e"
  by (auto simp: evidences_def)

text \<open>
  C1. For every valid voxel (inference returns a result) of an artifact with at least
  one candidate parameter, the posterior probabilities sum to 1 across the candidates,
  there is one per candidate, and each is the voxel's unnormalized evidence \<open>e\<^sub>k\<close>
  divided by the sum of all candidates' evidences.
\<close>

theorem posterior_sums_to_one:
  assumes "infer_voxel lev amt art ob = Some r" "candidates art \<noteq> []"
  shows "sum_list (posterior r) = 1
       \<and> length (posterior r) = length (candidates art)
       \<and> (\<forall>k < length (candidates art).
             posterior r ! k = evidences lev art ob ! k / sum_list (evidences lev art ob))"
proof -
  let ?es = "evidences lev art ob"
  have p: "posterior r = normalise ?es"
    using assms(1) by (auto simp: infer_voxel_def split: if_splits)
  have ne: "?es \<noteq> []"
    using assms(2) by (simp add: evidences_def)
  have "0 < sum_list ?es"
    using sum_list_pos_nonempty[OF ne evidences_positive] .
  then have "sum_list (posterior r) = 1"
    using sum_list_normalise[of ?es] p by simp
  moreover have "length (posterior r) = length (candidates art)"
    by (simp add: p normalise_def evidences_def)
  moreover have "posterior r ! k = ?es ! k / sum_list ?es" if "k < length (candidates art)" for k
    using that by (simp add: p normalise_def evidences_def)
  ultimately show ?thesis by blast
qed

lemma valid_radius_observation: "valid_covariance (noise_cov radius_observation)"
  by (simp add: radius_observation_def valid_covariance_def contains_nan_def
      positive_definite_def symmetric_def)

theorem posterior_sums_to_one_witness:
  "\<exists>r. infer_voxel (\<lambda>m ob. ln m) (\<lambda>m ob. 0) two_candidates radius_observation = Some r
      \<and> sum_list (posterior r) = 1
      \<and> posterior r = [1/4, 3/4]"
proof -
  let ?r = "\<lparr>posterior = [1/4, 3/4], amount = [0, 0]\<rparr>"
  have run: "infer_voxel (\<lambda>m ob. ln m) (\<lambda>m ob. 0) two_candidates radius_observation = Some ?r"
    using valid_radius_observation
    by (simp add: infer_voxel_def evidences_def normalise_def two_candidates_def)
  have ne: "candidates two_candidates \<noteq> []"
    by (simp add: two_candidates_def)
  from posterior_sums_to_one[OF run ne] have "sum_list (posterior ?r) = 1"
    by blast
  with run show ?thesis
    by (intro exI[of _ ?r]) simp
qed

end
